theory Spec2Isabelle
  imports Complex_Main "HOL-Library.Sublist" "HOL-Library.Multiset"
begin

section \<open>Patient-name extraction from OCR word boxes (\<open>main.py\<close>)\<close>

text \<open>
  The two pure-Python functions of \<open>main.py\<close> are embedded: \<open>sort_file\<close> (grouping
  word boxes into lines) and \<open>extract_patient_name\<close> (the marker search).

  Conventions of the embedding:
  \<^item> a Python \<open>str\<close> is a \<open>string\<close>; one \<open>char\<close> is one code point, which covers the code
    points below 256 (the predicates \<open>isspace\<close> and \<open>isupper\<close> are Python's on that range);
  \<^item> an exception is a value \<open>Inl e\<close> of \<open>error + 'a\<close>;
  \<^item> a JSON number is an exact rational (\<open>rat\<close>): the coordinates are finite numbers
    (no NaN, no infinity), and the rounding error of binary floating point in
    \<open>(a + b) / 2\<close> and \<open>y_avg / y_tol\<close> is not modelled.
\<close>

text \<open>A dictionary key: the field names are strings, the bucket keys are integers.\<close>

datatype dict_key = StrKey string | IntKey int

datatype error =
    KeyError dict_key
  | ValueError string
  | ZeroDivisionError

subsection \<open>Python's string primitives\<close>

text \<open>\<open>str.isspace\<close> on one character: the code points 9-13, 28-32, 0x85 and 0xA0.\<close>

definition isspace :: "char \<Rightarrow> bool" where
  "isspace c =
     (let n = (of_char c :: nat)
      in (9 \<le> n \<and> n \<le> 13) \<or> (28 \<le> n \<and> n \<le> 32) \<or> n = 133 \<or> n = 160)"

text \<open>\<open>str.isupper\<close> on one character: \<open>A\<close>-\<open>Z\<close>, and 0xC0-0xDE without the sign 0xD7.\<close>

definition isupper :: "char \<Rightarrow> bool" where
  "isupper c =
     (let n = (of_char c :: nat)
      in (65 \<le> n \<and> n \<le> 90) \<or> (192 \<le> n \<and> n \<le> 214) \<or> (216 \<le> n \<and> n \<le> 222))"

text \<open>\<open>marker in line\<close>: the marker occurs as a contiguous substring.\<close>

fun contains :: "string \<Rightarrow> string \<Rightarrow> bool" where
  "contains [] sep = (sep = [])"
| "contains (c # cs) sep = (prefix sep (c # cs) \<or> contains cs sep)"

text \<open>
  The leftmost occurrence of a separator: the text before it and the text after it
  (\<open>str.partition\<close>), or \<open>None\<close> when the separator does not occur.
\<close>

fun partition_first :: "string \<Rightarrow> string \<Rightarrow> (string \<times> string) option" where
  "partition_first [] sep = (if sep = [] then Some ([], []) else None)"
| "partition_first (c # cs) sep =
     (if prefix sep (c # cs) then Some ([], drop (length sep) (c # cs))
      else (case partition_first cs sep of
              None \<Rightarrow> None
            | Some (before, after) \<Rightarrow> Some (c # before, after)))"

text \<open>
  \<open>str.split(sep)\<close> for a non-empty separator: the text is cut at every occurrence of the
  separator, found left to right without overlap. The result has one more element than
  there are occurrences.
\<close>

function split_all :: "string \<Rightarrow> string \<Rightarrow> string list" where
  "split_all s sep =
     (if sep = [] then [s]
      else (case partition_first s sep of
              None \<Rightarrow> [s]
            | Some (before, after) \<Rightarrow> before # split_all after sep))"
  by pat_completeness auto
termination
proof (relation "measure (\<lambda>(s, sep). length s)")
  show "wf (measure (\<lambda>(s, sep). length s))"
    by simp
next
  fix s sep :: string and x before after
  assume sep: "sep \<noteq> []" and x: "partition_first s sep = Some x" "(before, after) = x"
  have shorter: "partition_first s sep = Some (b, after) \<Longrightarrow> length after < length s" for b
  proof (induction s arbitrary: b)
    case Nil
    with sep show ?case by simp
  next
    case (Cons c cs)
    show ?case
    proof (cases "prefix sep (c # cs)")
      case True
      with Cons.prems sep show ?thesis by auto
    next
      case False
      with Cons.prems obtain b' where "partition_first cs sep = Some (b', after)"
        by (auto split: option.splits)
      from Cons.IH [OF this] show ?thesis by simp
    qed
  qed
  from x have "partition_first s sep = Some (before, after)"
    by simp
  from shorter [OF this] show "((after, sep), (s, sep)) \<in> measure (\<lambda>(s, sep). length s)"
    by simp
qed

declare split_all.simps [simp del]

text \<open>\<open>line.split(marker)\<close>: an empty separator raises \<open>ValueError\<close>.\<close>

definition split :: "string \<Rightarrow> string \<Rightarrow> error + string list" where
  "split s sep = (if sep = [] then Inl (ValueError ''empty separator'') else Inr (split_all s sep))"

text \<open>\<open>str.strip()\<close>: whitespace removed at both ends.\<close>

definition strip :: "string \<Rightarrow> string" where
  "strip s = rev (dropWhile isspace (rev (dropWhile isspace s)))"

text \<open>
  \<open>str.split()\<close> without a separator: the maximal runs of characters that are not
  whitespace, in order. The first argument is the token being read, reversed.
\<close>

fun split_ws_from :: "string \<Rightarrow> string \<Rightarrow> string list" where
  "split_ws_from tok [] = (if tok = [] then [] else [rev tok])"
| "split_ws_from tok (c # cs) =
     (if isspace c then (if tok = [] then split_ws_from [] cs else rev tok # split_ws_from [] cs)
      else split_ws_from (c # tok) cs)"

definition split_ws :: "string \<Rightarrow> string list" where
  "split_ws s = split_ws_from [] s"

text \<open>The filter of the list comprehension: \<open>word and word[0].isupper()\<close>.\<close>

fun capitalized :: "string \<Rightarrow> bool" where
  "capitalized [] = False"
| "capitalized (c # cs) = isupper c"

subsection \<open>\<open>extract_patient_name\<close>\<close>

text \<open>
  The words kept after one marker of one line:
  \<open>[word for word in parts[1].strip().split() if word and word[0].isupper()]\<close>.
\<close>

definition candidate_names :: "string list \<Rightarrow> string list" where
  "candidate_names parts = filter capitalized (split_ws (strip (parts ! 1)))"

text \<open>
  The inner loop over the markers, for one line. \<open>Inr (Some (a, b))\<close> is the
  \<open>return candidate_names[0], candidate_names[1]\<close>; \<open>Inr None\<close> is the loop running to its
  end.
\<close>

fun scan_markers :: "string \<Rightarrow> string list \<Rightarrow> error + (string \<times> string) option" where
  "scan_markers line [] = Inr None"
| "scan_markers line (marker # markers) =
     (if contains line marker then
        (case split line marker of
           Inl e \<Rightarrow> Inl e
         | Inr parts \<Rightarrow>
             if length parts > 1 then
               (let names = candidate_names parts
                in if length names \<ge> 2 then Inr (Some (names ! 0, names ! 1))
                   else scan_markers line markers)
             else scan_markers line markers)
      else scan_markers line markers)"

text \<open>The outer loop over the lines; \<open>(None, None)\<close> is the fallback after the loops.\<close>

fun extract_patient_name ::
  "string list \<Rightarrow> string list \<Rightarrow> error + (string option \<times> string option)" where
  "extract_patient_name [] markers = Inr (None, None)"
| "extract_patient_name (line # lines_text) markers =
     (case scan_markers line markers of
        Inl e \<Rightarrow> Inl e
      | Inr (Some (a, b)) \<Rightarrow> Inr (Some a, Some b)
      | Inr None \<Rightarrow> extract_patient_name lines_text markers)"

definition default_markers :: "string list" where
  "default_markers = [''Monsieur'', ''Madame'']"

subsection \<open>Word boxes\<close>

text \<open>
  A word box is a dictionary; a field that may be missing is an \<open>option\<close>. The field
  \<open>text_field\<close> is the key \<open>text\<close>. The fields \<open>y_avg\<close> and \<open>x_avg\<close> are the ones
  \<open>sort_file\<close> stores on the word.
\<close>

record bbox =
  x_min :: "rat option"
  x_max :: "rat option"
  y_min :: "rat option"
  y_max :: "rat option"

record word =
  text_field :: "string option"
  bbox :: "bbox option"
  y_avg :: "rat option"
  x_avg :: "rat option"

text \<open>\<open>d[key]\<close> on a dictionary \<open>d\<close> whose field \<open>key\<close> has the content \<open>field\<close>.\<close>

definition getitem :: "'a option \<Rightarrow> string \<Rightarrow> error + 'a" where
  "getitem field key = (case field of None \<Rightarrow> Inl (KeyError (StrKey key)) | Some v \<Rightarrow> Inr v)"

text \<open>
  \<open>(word['bbox'][lo] + word['bbox'][hi]) / 2\<close>, the look-ups in the order Python
  evaluates them. The second look-up of \<open>bbox\<close> finds what the first one found.
\<close>

definition average ::
  "word \<Rightarrow> (bbox \<Rightarrow> rat option) \<Rightarrow> string \<Rightarrow> (bbox \<Rightarrow> rat option) \<Rightarrow> string \<Rightarrow> error + rat" where
  "average w lo lo_key hi hi_key =
     (case getitem (bbox w) ''bbox'' of
        Inl e \<Rightarrow> Inl e
      | Inr b \<Rightarrow>
          (case getitem (lo b) lo_key of
             Inl e \<Rightarrow> Inl e
           | Inr l \<Rightarrow>
               (case getitem (hi b) hi_key of
                  Inl e \<Rightarrow> Inl e
                | Inr h \<Rightarrow> Inr ((l + h) / 2))))"

text \<open>
  The body of the first loop. The word is updated in place, so the updated word is
  returned also when the second assignment raises: \<open>y_avg\<close> is stored by then.
\<close>

definition set_averages :: "word \<Rightarrow> word \<times> error option" where
  "set_averages w =
     (case average w y_min ''y_min'' y_max ''y_max'' of
        Inl e \<Rightarrow> (w, Some e)
      | Inr y \<Rightarrow>
          (let w1 = w\<lparr>y_avg := Some y\<rparr>
           in case average w1 x_min ''x_min'' x_max ''x_max'' of
                Inl e \<Rightarrow> (w1, Some e)
              | Inr x \<Rightarrow> (w1\<lparr>x_avg := Some x\<rparr>, None)))"

text \<open>The first loop: the caller's list after the loop, and the exception if one was raised.\<close>

fun calc_averages :: "word list \<Rightarrow> word list \<times> error option" where
  "calc_averages [] = ([], None)"
| "calc_averages (w # ws) =
     (case set_averages w of
        (w', Some e) \<Rightarrow> (w' # ws, Some e)
      | (w', None) \<Rightarrow> (case calc_averages ws of (ws', r) \<Rightarrow> (w' # ws', r)))"

subsection \<open>Buckets\<close>

text \<open>Python's \<open>round\<close> with one argument: to the nearest integer, a tie to the even one.\<close>

definition py_round :: "rat \<Rightarrow> int" where
  "py_round q =
     (let f = \<lfloor>q\<rfloor>; r = q - of_int f
      in if r < 1 / 2 then f else if 1 / 2 < r then f + 1 else if even f then f else f + 1)"

text \<open>\<open>round(word['y_avg'] / y_tol)\<close>.\<close>

definition bucket_key :: "rat \<Rightarrow> word \<Rightarrow> error + int" where
  "bucket_key y_tol w =
     (case getitem (y_avg w) ''y_avg'' of
        Inl e \<Rightarrow> Inl e
      | Inr y \<Rightarrow> if y_tol = 0 then Inl ZeroDivisionError else Inr (py_round (y / y_tol)))"

text \<open>
  The dictionary \<open>buckets\<close> is an association list in insertion order with one entry for
  each key. \<open>buckets.setdefault(key, []).append(word)\<close>:
\<close>

fun setdefault_append :: "(int \<times> word list) list \<Rightarrow> int \<Rightarrow> word \<Rightarrow> (int \<times> word list) list" where
  "setdefault_append [] key w = [(key, [w])]"
| "setdefault_append ((k, ws) # buckets) key w =
     (if k = key then (k, ws @ [w]) # buckets else (k, ws) # setdefault_append buckets key w)"

text \<open>The second loop.\<close>

fun fill_buckets ::
  "rat \<Rightarrow> (int \<times> word list) list \<Rightarrow> word list \<Rightarrow> error + (int \<times> word list) list" where
  "fill_buckets y_tol buckets [] = Inr buckets"
| "fill_buckets y_tol buckets (w # ws) =
     (case bucket_key y_tol w of
        Inl e \<Rightarrow> Inl e
      | Inr key \<Rightarrow> fill_buckets y_tol (setdefault_append buckets key w) ws)"

subsection \<open>\<open>sort_file\<close>\<close>

text \<open>
  \<open>sorted(bucket, key=lambda w: w['x_avg'])\<close>: the keys of all words are computed first,
  then the words are sorted by them, stably (\<open>sort_key\<close> is the stable insertion sort).
\<close>

definition sorted_by_x_avg :: "word list \<Rightarrow> error + word list" where
  "sorted_by_x_avg ws =
     (if list_all (\<lambda>w. x_avg w \<noteq> None) ws then Inr (sort_key (\<lambda>w. the (x_avg w)) ws)
      else Inl (KeyError (StrKey ''x_avg'')))"

text \<open>\<open>buckets[key]\<close>.\<close>

definition getitem_int :: "(int \<times> word list) list \<Rightarrow> int \<Rightarrow> error + word list" where
  "getitem_int buckets key =
     (case map_of buckets key of None \<Rightarrow> Inl (KeyError (IntKey key)) | Some ws \<Rightarrow> Inr ws)"

text \<open>The third loop, over \<open>sorted(buckets.keys())\<close>.\<close>

fun sort_lines :: "(int \<times> word list) list \<Rightarrow> int list \<Rightarrow> error + word list list" where
  "sort_lines buckets [] = Inr []"
| "sort_lines buckets (key # keys) =
     (case getitem_int buckets key of
        Inl e \<Rightarrow> Inl e
      | Inr bucket \<Rightarrow>
          (case sorted_by_x_avg bucket of
             Inl e \<Rightarrow> Inl e
           | Inr line \<Rightarrow>
               (case sort_lines buckets keys of
                  Inl e \<Rightarrow> Inl e
                | Inr sorted_lines \<Rightarrow> Inr (line # sorted_lines))))"

text \<open>
  \<open>sort_file\<close> returns the caller's list of words as the call leaves it, and the lines or
  the exception.
\<close>

definition sort_file :: "word list \<Rightarrow> rat \<Rightarrow> word list \<times> (error + word list list)" where
  "sort_file words y_tol =
     (case calc_averages words of
        (words', Some e) \<Rightarrow> (words', Inl e)
      | (words', None) \<Rightarrow>
          (words',
           case fill_buckets y_tol [] words' of
             Inl e \<Rightarrow> Inl e
           | Inr buckets \<Rightarrow> sort_lines buckets (sort (map fst buckets))))"

subsection \<open>Notions used to state the properties of \<open>sort_file\<close>\<close>

text \<open>Two states of one word box with the same \<open>text\<close> and the same \<open>bbox\<close>.\<close>

definition same_box :: "word \<Rightarrow> word \<Rightarrow> bool" where
  "same_box w w' = (text_field w' = text_field w \<and> bbox w' = bbox w)"



text \<open>
  The first field that a word box lacks, in the order in which \<open>sort_file\<close> reads the
  fields; \<open>None\<close> for a well-formed word box.
\<close>

definition missing_key :: "word \<Rightarrow> string option" where
  "missing_key w =
     (case bbox w of
        None \<Rightarrow> Some ''bbox''
      | Some b \<Rightarrow>
          if y_min b = None then Some ''y_min''
          else if y_max b = None then Some ''y_max''
          else if x_min b = None then Some ''x_min''
          else if x_max b = None then Some ''x_max''
          else None)"

text \<open>A word box as the loader supplies it, and one without its \<open>bbox\<close>.\<close>

definition word_box :: "string \<Rightarrow> rat \<Rightarrow> rat \<Rightarrow> rat \<Rightarrow> rat \<Rightarrow> word" where
  "word_box t xmin xmax ymin ymax =
     \<lparr>text_field = Some t,
      bbox = Some \<lparr>x_min = Some xmin, x_max = Some xmax, y_min = Some ymin, y_max = Some ymax\<rparr>,
      y_avg = None, x_avg = None\<rparr>"


text \<open>
  The words of a page of two lines, in the order of the file, and what \<open>sort_file\<close> makes
  of them with \<open>y_tol = 0.005\<close>.
\<close>

definition with_avg :: "word \<Rightarrow> rat \<Rightarrow> rat \<Rightarrow> word" where
  "with_avg w y x = w\<lparr>y_avg := Some y, x_avg := Some x\<rparr>"

definition w_monsieur :: word where
  "w_monsieur = word_box ''Monsieur'' 0 (10 / 100) (9 / 100) (11 / 100)"

definition w_jean :: word where
  "w_jean = word_box ''Jean'' (10 / 100) (20 / 100) (92 / 1000) (110 / 1000)"

definition w_dupont :: word where
  "w_dupont = word_box ''Dupont'' (20 / 100) (30 / 100) (90 / 1000) (112 / 1000)"

definition w_ne :: word where
  "w_ne = word_box ''ne'' (30 / 100) (40 / 100) (88 / 1000) (110 / 1000)"

definition w_le :: word where
  "w_le = word_box ''le'' 0 (4 / 100) (19 / 100) (21 / 100)"

definition w_date :: word where
  "w_date = word_box ''12/01/1980'' (5 / 100) (25 / 100) (19 / 100) (21 / 100)"

definition example_words :: "word list" where
  "example_words = [w_dupont, w_le, w_monsieur, w_date, w_ne, w_jean]"

definition example_words_after :: "word list" where
  "example_words_after =
     [with_avg w_dupont (101 / 1000) (25 / 100), with_avg w_le (20 / 100) (2 / 100),
      with_avg w_monsieur (10 / 100) (5 / 100), with_avg w_date (20 / 100) (15 / 100),
      with_avg w_ne (99 / 1000) (35 / 100), with_avg w_jean (101 / 1000) (15 / 100)]"

definition example_lines :: "word list list" where
  "example_lines =
     [[with_avg w_monsieur (10 / 100) (5 / 100), with_avg w_jean (101 / 1000) (15 / 100),
       with_avg w_dupont (101 / 1000) (25 / 100), with_avg w_ne (99 / 1000) (35 / 100)],
      [with_avg w_le (20 / 100) (2 / 100), with_avg w_date (20 / 100) (15 / 100)]]"

section \<open>Properties of \<open>extract_patient_name\<close>\<close>

subsection \<open>The string primitives\<close>

lemma partition_first_decomp:
  "partition_first s sep = Some (before, after) \<Longrightarrow> s = before @ sep @ after"
proof (induction s arbitrary: before)
  case Nil
  then show ?case by (simp split: if_splits)
next
  case (Cons c cs)
  show ?case
  proof (cases "prefix sep (c # cs)")
    case True
    then obtain rest where rest: "c # cs = sep @ rest"
      by (auto simp: prefix_def)
    from True Cons.prems have "before = []" "after = drop (length sep) (c # cs)"
      by simp_all
    with rest show ?thesis by simp
  next
    case False
    with Cons.prems obtain b where b: "partition_first cs sep = Some (b, after)" "before = c # b"
      by (auto split: option.splits)
    from Cons.IH [OF b(1)] b(2) show ?thesis by simp
  qed
qed

lemma contains_partition_first: "contains s sep \<longleftrightarrow> partition_first s sep \<noteq> None"
  by (induction s) (auto split: option.splits)

lemma split_all_Some:
  "sep \<noteq> [] \<Longrightarrow> partition_first s sep = Some (before, after) \<Longrightarrow>
   split_all s sep = before # split_all after sep"
  by (subst split_all.simps) simp

lemma split_all_None:
  "partition_first s sep = None \<Longrightarrow> split_all s sep = [s]"
  by (subst split_all.simps) simp

lemma split_all_not_Nil: "split_all s sep \<noteq> []"
  by (subst split_all.simps) (simp split: option.splits)

lemma hd_split_all_prefix: "prefix (hd (split_all s sep)) s"
proof (cases "partition_first s sep")
  case None
  then show ?thesis by (simp add: split_all_None)
next
  case (Some p)
  obtain before after where p: "p = (before, after)" by (cases p)
  show ?thesis
  proof (cases "sep = []")
    case True
    then show ?thesis by (subst split_all.simps) simp
  next
    case False
    from Some p have "s = before @ sep @ after"
      by (simp add: partition_first_decomp)
    with False Some p show ?thesis
      by (simp add: split_all_Some)
  qed
qed

lemma strip_all_space: "list_all isspace s \<Longrightarrow> strip s = []"
  by (auto simp: strip_def list_all_iff dest: set_dropWhileD)

lemma candidate_names_space:
  assumes "sep \<noteq> []" and "partition_first s sep = Some (before, after)" and "list_all isspace after"
  shows "candidate_names (split_all s sep) = []"
proof -
  have "prefix (hd (split_all after sep)) after"
    by (rule hd_split_all_prefix)
  then obtain zs where "after = hd (split_all after sep) @ zs"
    by (auto simp: prefix_def)
  with assms(3) have "list_all isspace (hd (split_all after sep))"
    by (metis list_all_append)
  moreover have "split_all s sep ! 1 = hd (split_all after sep)"
    using assms(1,2) split_all_not_Nil [of after sep]
    by (simp add: split_all_Some hd_conv_nth)
  ultimately show ?thesis
    by (simp add: candidate_names_def strip_all_space split_ws_def)
qed

lemma scan_markers_skip:
  assumes "marker \<noteq> []" and "partition_first line marker = Some (before, after)"
    and "list_all isspace after"
  shows "scan_markers line (marker # markers) = scan_markers line markers"
  using assms by (simp add: split_def candidate_names_space)

lemma scan_markers_append:
  "scan_markers line (pre @ post) =
     (case scan_markers line pre of Inr None \<Rightarrow> scan_markers line post | r \<Rightarrow> r)"
  by (induction pre) (auto simp: Let_def split: sum.splits option.splits)

lemma scan_markers_none:
  assumes "[] \<notin> set markers"
    and "\<forall>marker\<in>set markers. contains line marker \<longrightarrow> length (candidate_names (split_all line marker)) < 2"
  shows "scan_markers line markers = Inr None"
  using assms by (induction markers) (auto simp: split_def)

lemma split_ws_from_tokens:
  "t \<in> set (split_ws_from tok s) \<Longrightarrow> list_all (\<lambda>c. \<not> isspace c) tok \<Longrightarrow>
   t \<noteq> [] \<and> list_all (\<lambda>c. \<not> isspace c) t"
  by (induction tok s rule: split_ws_from.induct) (auto split: if_splits)

lemma candidate_names_tokens:
  "t \<in> set (candidate_names parts) \<Longrightarrow> capitalized t \<and> list_all (\<lambda>c. \<not> isspace c) t"
  by (auto simp: candidate_names_def split_ws_def dest: split_ws_from_tokens)

lemma scan_markers_Some:
  "scan_markers line markers = Inr (Some (a, b)) \<Longrightarrow>
   \<exists>marker\<in>set markers. contains line marker \<and> marker \<noteq> [] \<and>
     2 \<le> length (candidate_names (split_all line marker)) \<and>
     a = candidate_names (split_all line marker) ! 0 \<and>
     b = candidate_names (split_all line marker) ! 1"
  by (induction markers) (auto simp: split_def Let_def split: if_splits)

text \<open>
  A marker that occurs once in the line: \<open>parts[1]\<close> is all the text after it.
\<close>

lemma split_all_once:
  assumes "sep \<noteq> []" and "partition_first s sep = Some (before, after)"
    and "\<not> contains after sep"
  shows "split_all s sep = [before, after]"
proof -
  from assms(3) have "partition_first after sep = None"
    unfolding contains_partition_first by blast
  with assms(1,2) show ?thesis
    by (simp add: split_all_Some split_all_None)
qed

lemma candidate_names_once:
  assumes "sep \<noteq> []" and "partition_first s sep = Some (before, after)"
    and "\<not> contains after sep"
  shows "candidate_names (split_all s sep) = filter capitalized (split_ws (strip after))"
  using split_all_once [OF assms] by (simp add: candidate_names_def)

text \<open>
  In general \<open>parts[1]\<close> is a prefix of the text after the first occurrence, and has at
  most as many capitalized words.
\<close>

lemma split_ws_from_tok:
  "tok \<noteq> [] \<Longrightarrow> \<exists>t ts. split_ws_from tok s = (rev tok @ t) # ts"
  by (induction tok s rule: split_ws_from.induct) auto

lemma capitalized_append: "t \<noteq> [] \<Longrightarrow> capitalized (t @ u) = capitalized t"
  by (cases t) simp_all

lemma split_ws_from_prefix:
  "length (filter capitalized (split_ws_from tok p))
     \<le> length (filter capitalized (split_ws_from tok (p @ q)))"
proof (induction tok p rule: split_ws_from.induct)
  case (1 tok)
  show ?case
  proof (cases "tok = []")
    case True
    then show ?thesis by simp
  next
    case False
    then obtain t ts where "split_ws_from tok q = (rev tok @ t) # ts"
      using split_ws_from_tok by blast
    with False show ?thesis
      by (simp add: capitalized_append)
  qed
next
  case (2 tok c cs)
  then show ?case by auto
qed

lemma split_ws_dropWhile: "split_ws (dropWhile isspace s) = split_ws s"
  unfolding split_ws_def by (induction s) auto

lemma split_ws_from_spaces:
  "list_all isspace r \<Longrightarrow> split_ws_from tok r = (if tok = [] then [] else [rev tok])"
  by (induction r arbitrary: tok) auto

lemma split_ws_from_trailing:
  "list_all isspace r \<Longrightarrow> split_ws_from tok (s @ r) = split_ws_from tok s"
proof (induction tok s rule: split_ws_from.induct)
  case (1 tok)
  then show ?case by (simp add: split_ws_from_spaces)
next
  case (2 tok c cs)
  then show ?case by auto
qed

lemma split_ws_strip: "split_ws (strip s) = split_ws s"
proof -
  let ?d = "dropWhile isspace s"
  have "?d = rev (dropWhile isspace (rev ?d)) @ rev (takeWhile isspace (rev ?d))"
    by (metis rev_append rev_rev_ident takeWhile_dropWhile_id)
  moreover have "list_all isspace (rev (takeWhile isspace (rev ?d)))"
    by (auto simp: list_all_iff dest: set_takeWhileD)
  ultimately have "split_ws ?d = split_ws (strip s)"
    unfolding split_ws_def strip_def by (metis split_ws_from_trailing)
  then show ?thesis
    by (simp add: split_ws_dropWhile)
qed

lemma candidates_prefix:
  "prefix p s \<Longrightarrow>
   length (filter capitalized (split_ws (strip p))) \<le> length (filter capitalized (split_ws (strip s)))"
  unfolding split_ws_strip by (auto simp: prefix_def split_ws_def split_ws_from_prefix)

lemma candidate_names_le_remainder:
  assumes "sep \<noteq> []" and "partition_first s sep = Some (before, after)"
  shows "length (candidate_names (split_all s sep))
     \<le> length (filter capitalized (split_ws (strip after)))"
proof -
  have "split_all s sep ! 1 = hd (split_all after sep)"
    using assms split_all_not_Nil [of after sep]
    by (simp add: split_all_Some hd_conv_nth)
  moreover have "prefix (hd (split_all after sep)) after"
    by (rule hd_split_all_prefix)
  ultimately show ?thesis
    by (simp add: candidate_names_def candidates_prefix)
qed

subsection \<open>The segment taken after the marker\<close>

text \<open>
  C1. The claim: the line is split at the first occurrence of the marker and the whole
  remainder of the line after that occurrence is tokenized. The code calls
  \<open>line.split(marker)\<close>, which cuts at every occurrence, and reads \<open>parts[1]\<close>, the text
  between the first and the second occurrence. On the line below the marker occurs twice:
  the remainder after its first occurrence holds the capitalized words \<open>Jean\<close> and
  \<open>Monsieur\<close>, and more, but \<open>parts[1]\<close> holds \<open>Jean\<close> alone, and the function returns
  \<open>(None, None)\<close>.
\<close>

theorem extract_patient_name_repeated_marker:
  "partition_first ''Monsieur Jean Monsieur Dupont Martin'' ''Monsieur''
     = Some ('''', '' Jean Monsieur Dupont Martin'')
   \<and> filter capitalized (split_ws (strip '' Jean Monsieur Dupont Martin''))
     = [''Jean'', ''Monsieur'', ''Dupont'', ''Martin'']
   \<and> split ''Monsieur Jean Monsieur Dupont Martin'' ''Monsieur''
     = Inr ['''', '' Jean '', '' Dupont Martin'']
   \<and> extract_patient_name [''Monsieur Jean Monsieur Dupont Martin''] default_markers
     = Inr (None, None)"
  by code_simp

subsection \<open>Marker priority\<close>

text \<open>
  C5. The claim: on a line that contains both markers, each followed by at least two
  capitalized words, the pair after the marker that comes first in the marker list is
  returned. On the line below, \<open>Monsieur\<close> is first in the list and is followed by the
  capitalized words \<open>Jean\<close>, \<open>Monsieur\<close>, \<open>Dupont\<close>; since it occurs twice, \<open>parts[1]\<close>
  holds one of them only, the marker is passed over, and the pair after \<open>Madame\<close> is
  returned.
\<close>

theorem extract_patient_name_priority_lost:
  "default_markers = [''Monsieur'', ''Madame'']
   \<and> partition_first ''Monsieur Jean Monsieur Dupont Madame Anne Martin'' ''Monsieur''
     = Some ('''', '' Jean Monsieur Dupont Madame Anne Martin'')
   \<and> filter capitalized (split_ws (strip '' Jean Monsieur Dupont Madame Anne Martin''))
     = [''Jean'', ''Monsieur'', ''Dupont'', ''Madame'', ''Anne'', ''Martin'']
   \<and> extract_patient_name [''Monsieur Jean Monsieur Dupont Madame Anne Martin''] default_markers
     = Inr (Some ''Anne'', Some ''Martin'')"
  by code_simp

subsection \<open>No name found\<close>

text \<open>
  C6. The claim: when no line and marker give two capitalized words, the result is
  \<open>(None, None)\<close> and no error is raised. With an empty marker this fails: \<open>'' in line\<close> holds
  for every line, and \<open>line.split('')\<close> raises \<open>ValueError\<close>. The line \<open>Bonjour\<close> has one
  capitalized word after the (empty) marker.
\<close>

theorem extract_patient_name_empty_marker_raises:
  "partition_first ''Bonjour'' '''' = Some ('''', ''Bonjour'')
   \<and> filter capitalized (split_ws (strip ''Bonjour'')) = [''Bonjour'']
   \<and> extract_patient_name [''Bonjour''] [''''] = Inl (ValueError ''empty separator'')"
  by code_simp

text \<open>
  C6, amended. When every marker is a non-empty string, and no line with a marker that
  occurs in it gives at least two capitalized words after the marker, the result is
  \<open>(None, None)\<close> and no error is raised. The empty list of lines is included. The words
  counted are those the function finds, in \<open>parts[1]\<close>; by \<open>candidate_names_le_remainder\<close>
  there are fewer than two of them whenever all the text after the first occurrence of
  the marker has fewer than two.
\<close>

theorem extract_patient_name_not_found:
  assumes "[] \<notin> set markers"
    and "\<forall>line\<in>set lines_text. \<forall>marker\<in>set markers.
           contains line marker \<longrightarrow> length (candidate_names (split_all line marker)) < 2"
  shows "extract_patient_name lines_text markers = Inr (None, None)"
  using assms by (induction lines_text) (simp_all add: scan_markers_none)

theorem extract_patient_name_not_found_witness:
  "[] \<notin> set default_markers
   \<and> contains ''Monsieur jean dupont'' ''Monsieur''
   \<and> length (candidate_names (split_all ''Monsieur jean dupont'' ''Monsieur'')) < 2
   \<and> \<not> contains ''Monsieur jean dupont'' ''Madame''
   \<and> \<not> contains ''Bonjour a tous'' ''Monsieur''
   \<and> \<not> contains ''Bonjour a tous'' ''Madame''
   \<and> extract_patient_name [''Bonjour a tous'', ''Monsieur jean dupont''] default_markers
     = Inr (None, None)"
proof -
  have 1: "[] \<notin> set default_markers"
    by (simp add: default_markers_def)
  have 2: "contains ''Monsieur jean dupont'' ''Monsieur''"
    by code_simp
  have 3: "length (candidate_names (split_all ''Monsieur jean dupont'' ''Monsieur'')) < 2"
    by code_simp
  have 4: "\<not> contains ''Monsieur jean dupont'' ''Madame''"
    by code_simp
  have 5: "\<not> contains ''Bonjour a tous'' ''Monsieur''"
    by code_simp
  have 6: "\<not> contains ''Bonjour a tous'' ''Madame''"
    by code_simp
  have "\<forall>line\<in>set [''Bonjour a tous'', ''Monsieur jean dupont'']. \<forall>marker\<in>set default_markers.
          contains line marker \<longrightarrow> length (candidate_names (split_all line marker)) < 2"
    using 3 4 5 6 by (simp add: default_markers_def)
  from extract_patient_name_not_found [OF 1 this] 1 2 3 4 5 6 show ?thesis
    by simp
qed

subsection \<open>A marker with nothing after it\<close>

text \<open>
  C7. The claim: a marker at the very end of the line, or followed by whitespace only, is
  no match, and the scan goes on with the remaining markers of the line and then with the
  remaining lines. With the empty marker this fails: on the line of one space the empty
  marker is followed by whitespace only, there is nothing left to scan, so the result
  would be \<open>(None, None)\<close>; the function raises \<open>ValueError\<close>.
\<close>

theorem scan_markers_empty_marker_raises:
  "partition_first '' '' '''' = Some ('''', '' '')
   \<and> list_all isspace '' ''
   \<and> scan_markers '' '' [] = Inr None
   \<and> scan_markers '' '' [''''] = Inl (ValueError ''empty separator'')
   \<and> extract_patient_name ['' ''] [''''] = Inl (ValueError ''empty separator'')"
  by code_simp

text \<open>
  C7, amended. When the first occurrence of a non-empty marker in a line is at the very end
  of the line or is followed by whitespace only, the marker is no match: the scan of the
  line gives what it gives without that marker, and when the other markers find nothing
  either, the scan goes on with the remaining lines.
\<close>

theorem scan_markers_nothing_after:
  assumes "marker \<noteq> []"
    and "partition_first line marker = Some (before, after)"
    and "list_all isspace after"
  shows "scan_markers line (pre @ marker # post) = scan_markers line (pre @ post)
    \<and> extract_patient_name (line # lines_text) (pre @ marker # post) =
        (case scan_markers line (pre @ post) of
           Inl e \<Rightarrow> Inl e
         | Inr (Some (a, b)) \<Rightarrow> Inr (Some a, Some b)
         | Inr None \<Rightarrow> extract_patient_name lines_text (pre @ marker # post))"
proof -
  have "scan_markers line (marker # post) = scan_markers line post"
    using assms by (rule scan_markers_skip)
  then have "scan_markers line (pre @ marker # post) = scan_markers line (pre @ post)"
    by (simp only: scan_markers_append)
  then show ?thesis
    by simp
qed

theorem scan_markers_nothing_after_witness:
  "''Madame'' \<noteq> []
   \<and> partition_first ''Monsieur Jean Dupont et Madame  '' ''Madame''
       = Some (''Monsieur Jean Dupont et '', ''  '')
   \<and> list_all isspace ''  ''
   \<and> scan_markers ''Monsieur Jean Dupont et Madame  '' [''Madame'', ''Monsieur'']
       = Inr (Some (''Jean'', ''Dupont''))
   \<and> extract_patient_name [''Monsieur Jean Dupont et Madame  ''] [''Madame'', ''Monsieur'']
       = Inr (Some ''Jean'', Some ''Dupont'')"
proof -
  have 1: "''Madame'' \<noteq> []"
    by simp
  have 2: "partition_first ''Monsieur Jean Dupont et Madame  '' ''Madame''
       = Some (''Monsieur Jean Dupont et '', ''  '')"
    by code_simp
  have 3: "list_all isspace ''  ''"
    by code_simp
  have 4: "scan_markers ''Monsieur Jean Dupont et Madame  '' [''Monsieur'']
       = Inr (Some (''Jean'', ''Dupont''))"
    by code_simp
  from scan_markers_nothing_after [OF 1 2 3, of "[]" "[''Monsieur'']" "[]"] 1 2 3 4
  show ?thesis
    by simp
qed

subsection \<open>The shape of the result\<close>

text \<open>
  C10. Whenever \<open>extract_patient_name\<close> returns, the pair is \<open>(None, None)\<close> or both
  components are present; then each is a non-empty word without whitespace whose first
  character is an uppercase letter. No pair with exactly one component is returned.
\<close>

theorem extract_patient_name_all_or_nothing:
  assumes "extract_patient_name lines_text markers = Inr (first_name, last_name)"
  shows "(first_name = None \<and> last_name = None) \<or>
   (\<exists>a b. first_name = Some a \<and> last_name = Some b \<and> a \<noteq> [] \<and> b \<noteq> [] \<and>
      capitalized a \<and> capitalized b \<and>
      list_all (\<lambda>c. \<not> isspace c) a \<and> list_all (\<lambda>c. \<not> isspace c) b)"
  using assms
proof (induction lines_text)
  case Nil
  then show ?case by simp
next
  case (Cons line lines_text)
  show ?case
  proof (cases "scan_markers line markers")
    case (Inl e)
    with Cons.prems show ?thesis by simp
  next
    case (Inr r)
    show ?thesis
    proof (cases r)
      case None
      with Inr Cons show ?thesis by simp
    next
      case (Some p)
      obtain a b where p: "p = (a, b)" by (cases p)
      from Inr Some p obtain marker where
        m: "2 \<le> length (candidate_names (split_all line marker))"
           "a = candidate_names (split_all line marker) ! 0"
           "b = candidate_names (split_all line marker) ! 1"
        by (auto dest: scan_markers_Some)
      from m have "a \<in> set (candidate_names (split_all line marker))"
        "b \<in> set (candidate_names (split_all line marker))"
        by (simp_all only: nth_mem)
      then have "capitalized a \<and> list_all (\<lambda>c. \<not> isspace c) a"
        "capitalized b \<and> list_all (\<lambda>c. \<not> isspace c) b"
        by (auto dest: candidate_names_tokens)
      moreover from this have "a \<noteq> []" "b \<noteq> []"
        by auto
      ultimately show ?thesis
        using Inr Some p Cons.prems by auto
    qed
  qed
qed

theorem extract_patient_name_all_or_nothing_witness:
  "extract_patient_name [''Monsieur Jean Dupont ne'', ''le 12/01/1980''] default_markers
     = Inr (Some ''Jean'', Some ''Dupont'')
   \<and> capitalized ''Jean'' \<and> capitalized ''Dupont''"
proof -
  have 1: "extract_patient_name [''Monsieur Jean Dupont ne'', ''le 12/01/1980''] default_markers
     = Inr (Some ''Jean'', Some ''Dupont'')"
    by code_simp
  from extract_patient_name_all_or_nothing [OF 1] 1 show ?thesis
    by simp
qed

section \<open>Properties of \<open>sort_file\<close>\<close>

subsection \<open>The first loop\<close>

lemma average_cong:
  "bbox w' = bbox w \<Longrightarrow> average w' lo lk hi hk = average w lo lk hi hk"
  by (simp add: average_def)

lemma set_averages_bbox [simp]: "bbox (fst (set_averages w)) = bbox w"
  by (simp add: set_averages_def Let_def split: sum.splits)

lemma set_averages_text [simp]: "text_field (fst (set_averages w)) = text_field w"
  by (simp add: set_averages_def Let_def split: sum.splits)

lemma set_averages_idem: "set_averages (fst (set_averages w)) = set_averages w"
proof (cases "average w y_min ''y_min'' y_max ''y_max''")
  case (Inl e)
  then show ?thesis by (simp add: set_averages_def)
next
  case y: (Inr y)
  let ?w1 = "w\<lparr>y_avg := Some y\<rparr>"
  have y1: "average ?w1 y_min ''y_min'' y_max ''y_max'' = Inr y"
    using y by (simp add: average_def)
  show ?thesis
  proof (cases "average ?w1 x_min ''x_min'' x_max ''x_max''")
    case (Inl e)
    with y have 1: "set_averages w = (?w1, Some e)"
      by (simp add: set_averages_def)
    from y1 Inl have "set_averages ?w1 = (?w1, Some e)"
      by (simp add: set_averages_def)
    with 1 show ?thesis by simp
  next
    case x: (Inr x)
    let ?w2 = "?w1\<lparr>x_avg := Some x\<rparr>"
    from y x have 1: "set_averages w = (?w2, None)"
      by (simp add: set_averages_def)
    have "average ?w2 y_min ''y_min'' y_max ''y_max'' = Inr y"
      using y by (simp add: average_def)
    moreover have "average (?w2\<lparr>y_avg := Some y\<rparr>) x_min ''x_min'' x_max ''x_max'' = Inr x"
      using x by (simp add: average_def)
    ultimately have "set_averages ?w2 = (?w2, None)"
      by (simp add: set_averages_def)
    with 1 show ?thesis by simp
  qed
qed

lemma set_averages_None:
  "set_averages w = (w', None) \<Longrightarrow> y_avg w' \<noteq> None \<and> x_avg w' \<noteq> None"
  by (auto simp: set_averages_def Let_def split: sum.splits)

lemma calc_averages_idem: "calc_averages (fst (calc_averages ws)) = calc_averages ws"
proof (induction ws)
  case Nil
  then show ?case by simp
next
  case (Cons w ws)
  obtain w' r where w: "set_averages w = (w', r)" by (cases "set_averages w")
  with set_averages_idem [of w] have w': "set_averages w' = (w', r)" by simp
  obtain ws' r' where ws: "calc_averages ws = (ws', r')" by (cases "calc_averages ws")
  with Cons.IH have "calc_averages ws' = (ws', r')" by simp
  with w w' ws show ?case
    by (cases r) simp_all
qed

lemma set_averages_same_box: "same_box w (fst (set_averages w))"
  by (simp add: same_box_def)

lemma calc_averages_same_box: "list_all2 same_box ws (fst (calc_averages ws))"
proof (induction ws)
  case Nil
  then show ?case by simp
next
  case (Cons w ws)
  have refl: "list_all2 same_box ws ws"
    by (rule list_all2_refl) (simp add: same_box_def)
  obtain w' r where w: "set_averages w = (w', r)" by (cases "set_averages w")
  with set_averages_same_box [of w] have w': "same_box w w'" by simp
  obtain ws' r' where ws: "calc_averages ws = (ws', r')" by (cases "calc_averages ws")
  with Cons.IH have "list_all2 same_box ws ws'" by simp
  with w w' ws refl show ?case
    by (cases r) simp_all
qed

lemma calc_averages_None:
  "calc_averages ws = (ws', None) \<Longrightarrow> \<forall>w\<in>set ws'. y_avg w \<noteq> None \<and> x_avg w \<noteq> None"
  by (induction ws arbitrary: ws') (auto split: prod.splits option.splits dest: set_averages_None)

lemma set_averages_well_formed:
  "missing_key w = None \<Longrightarrow> snd (set_averages w) = None"
  by (auto simp: missing_key_def set_averages_def average_def getitem_def
      split: option.splits if_splits)



lemma calc_averages_well_formed:
  "\<forall>w\<in>set ws. missing_key w = None \<Longrightarrow> snd (calc_averages ws) = None"
proof (induction ws)
  case Nil
  then show ?case by simp
next
  case (Cons w ws)
  then have "snd (set_averages w) = None" "snd (calc_averages ws) = None"
    by (simp_all add: set_averages_well_formed)
  then show ?case
    by (cases "set_averages w"; cases "calc_averages ws") simp
qed

subsection \<open>The buckets\<close>

lemma map_of_setdefault_append:
  "map_of (setdefault_append buckets key w) k =
     (if k = key then Some ((case map_of buckets key of None \<Rightarrow> [] | Some ws \<Rightarrow> ws) @ [w])
      else map_of buckets k)"
  by (induction buckets key w rule: setdefault_append.induct) auto

lemma keys_setdefault_append:
  "fst ` set (setdefault_append buckets key w) = insert key (fst ` set buckets)"
  by (induction buckets key w rule: setdefault_append.induct) auto

lemma distinct_setdefault_append:
  "distinct (map fst buckets) \<Longrightarrow> distinct (map fst (setdefault_append buckets key w))"
  by (induction buckets key w rule: setdefault_append.induct) (auto simp: keys_setdefault_append)

text \<open>The content of a bucket, empty for a key that is not in the dictionary.\<close>

lemma fill_buckets_content:
  "fill_buckets y_tol buckets ws = Inr buckets' \<Longrightarrow>
   (case map_of buckets' k of None \<Rightarrow> [] | Some b \<Rightarrow> b) =
   (case map_of buckets k of None \<Rightarrow> [] | Some b \<Rightarrow> b) @ filter (\<lambda>w. bucket_key y_tol w = Inr k) ws"
proof (induction ws arbitrary: buckets)
  case Nil
  then show ?case by simp
next
  case (Cons w ws)
  from Cons.prems obtain key where key: "bucket_key y_tol w = Inr key"
    and rest: "fill_buckets y_tol (setdefault_append buckets key w) ws = Inr buckets'"
    by (auto split: sum.splits)
  from Cons.IH [OF rest] key show ?case
    by (simp add: map_of_setdefault_append)
qed

lemma fill_buckets_keys:
  "fill_buckets y_tol buckets ws = Inr buckets' \<Longrightarrow>
   fst ` set buckets' = fst ` set buckets \<union> {k. \<exists>w\<in>set ws. bucket_key y_tol w = Inr k}"
proof (induction ws arbitrary: buckets)
  case Nil
  then show ?case by simp
next
  case (Cons w ws)
  from Cons.prems obtain key where key: "bucket_key y_tol w = Inr key"
    and rest: "fill_buckets y_tol (setdefault_append buckets key w) ws = Inr buckets'"
    by (auto split: sum.splits)
  from Cons.IH [OF rest] key show ?case
    by (auto simp: keys_setdefault_append)
qed

lemma fill_buckets_distinct:
  "fill_buckets y_tol buckets ws = Inr buckets' \<Longrightarrow> distinct (map fst buckets) \<Longrightarrow>
   distinct (map fst buckets')"
  by (induction ws arbitrary: buckets) (auto split: sum.splits intro: distinct_setdefault_append)

lemma fill_buckets_all_keys:
  "fill_buckets y_tol buckets ws = Inr buckets' \<Longrightarrow> \<forall>w\<in>set ws. \<exists>k. bucket_key y_tol w = Inr k"
  by (induction ws arbitrary: buckets) (auto split: sum.splits)

lemma map_of_fill_buckets:
  assumes "fill_buckets y_tol [] ws = Inr buckets" and "k \<in> fst ` set buckets"
  shows "map_of buckets k = Some (filter (\<lambda>w. bucket_key y_tol w = Inr k) ws)"
proof -
  from assms(2) obtain b where b: "map_of buckets k = Some b"
    by (cases "map_of buckets k") (auto simp: map_of_eq_None_iff)
  with fill_buckets_content [OF assms(1), of k] show ?thesis
    by simp
qed

lemma sort_lines_map:
  assumes "\<forall>k\<in>set keys. \<exists>b. map_of buckets k = Some b \<and> list_all (\<lambda>w. x_avg w \<noteq> None) b"
  shows "sort_lines buckets keys =
     Inr (map (\<lambda>k. sort_key (\<lambda>w. the (x_avg w)) (the (map_of buckets k))) keys)"
  using assms
  by (induction keys) (auto simp: getitem_int_def sorted_by_x_avg_def)

lemma fill_buckets_returns:
  "\<forall>w\<in>set ws. \<exists>k. bucket_key y_tol w = Inr k \<Longrightarrow> \<exists>buckets'. fill_buckets y_tol buckets ws = Inr buckets'"
  by (induction ws arbitrary: buckets) auto

subsection \<open>The lines that are returned\<close>

lemma sort_file_lines:
  assumes "sort_file words y_tol = (words', Inr sorted_lines)"
  obtains keys where
    "calc_averages words = (words', None)"
    "sorted_wrt (<) keys"
    "set keys = {k. \<exists>w\<in>set words'. bucket_key y_tol w = Inr k}"
    "sorted_lines =
       map (\<lambda>k. sort_key (\<lambda>w. the (x_avg w)) (filter (\<lambda>w. bucket_key y_tol w = Inr k) words')) keys"
    "\<forall>w\<in>set words'. x_avg w \<noteq> None \<and> (\<exists>k. bucket_key y_tol w = Inr k)"
proof -
  obtain ws r where calc: "calc_averages words = (ws, r)"
    by (cases "calc_averages words")
  with assms have r: "r = None" and ws: "ws = words'"
    by (auto simp: sort_file_def split: option.splits)
  from assms calc r ws obtain buckets where
    fill: "fill_buckets y_tol [] words' = Inr buckets"
    and lines: "sort_lines buckets (sort (map fst buckets)) = Inr sorted_lines"
    by (auto simp: sort_file_def split: sum.splits)
  let ?keys = "sort (map fst buckets)"
  have x: "\<forall>w\<in>set words'. x_avg w \<noteq> None"
    using calc_averages_None [of words words'] calc r ws by simp
  have "distinct (map fst buckets)"
    using fill by (rule fill_buckets_distinct) simp
  then have 1: "sorted_wrt (<) ?keys"
    by (simp add: strict_sorted_iff)
  have 2: "set ?keys = {k. \<exists>w\<in>set words'. bucket_key y_tol w = Inr k}"
    using fill_buckets_keys [OF fill] by simp
  have content: "map_of buckets k = Some (filter (\<lambda>w. bucket_key y_tol w = Inr k) words')"
    if "k \<in> set ?keys" for k
    using fill that by (intro map_of_fill_buckets) simp_all
  have "\<forall>k\<in>set ?keys. \<exists>b. map_of buckets k = Some b \<and> list_all (\<lambda>w. x_avg w \<noteq> None) b"
    using content x by (auto simp: list_all_iff)
  from sort_lines_map [OF this] lines
  have "sorted_lines = map (\<lambda>k. sort_key (\<lambda>w. the (x_avg w)) (the (map_of buckets k))) ?keys"
    by simp
  also have "\<dots> = map (\<lambda>k. sort_key (\<lambda>w. the (x_avg w))
      (filter (\<lambda>w. bucket_key y_tol w = Inr k) words')) ?keys"
    by (rule map_cong) (simp_all add: content)
  finally have 3: "sorted_lines = map (\<lambda>k. sort_key (\<lambda>w. the (x_avg w))
      (filter (\<lambda>w. bucket_key y_tol w = Inr k) words')) ?keys" .
  from x fill_buckets_all_keys [OF fill]
  have 4: "\<forall>w\<in>set words'. x_avg w \<noteq> None \<and> (\<exists>k. bucket_key y_tol w = Inr k)"
    by simp
  from calc r ws have "calc_averages words = (words', None)" by simp
  from that [OF this 1 2 3 4] show thesis .
qed

lemma mset_filter_disjoint:
  "(\<And>x. \<not> (P x \<and> Q x)) \<Longrightarrow>
   mset (filter P xs) + mset (filter Q xs) = mset (filter (\<lambda>x. P x \<or> Q x) xs)"
  by (induction xs) auto

lemma mset_concat_groups:
  "distinct keys \<Longrightarrow>
   mset (concat (map (\<lambda>k. sort_key f (filter (\<lambda>x. g x = Inr k) xs)) keys)) =
   mset (filter (\<lambda>x. \<exists>k\<in>set keys. g x = Inr k) xs)"
proof (induction keys)
  case Nil
  then show ?case by simp
next
  case (Cons k keys)
  then have "mset (concat (map (\<lambda>k. sort_key f (filter (\<lambda>x. g x = Inr k) xs)) (k # keys))) =
    mset (filter (\<lambda>x. g x = Inr k) xs) + mset (filter (\<lambda>x. \<exists>k\<in>set keys. g x = Inr k) xs)"
    by simp
  also have "\<dots> = mset (filter (\<lambda>x. g x = Inr k \<or> (\<exists>k\<in>set keys. g x = Inr k)) xs)"
    using Cons.prems by (intro mset_filter_disjoint) auto
  also have "\<dots> = mset (filter (\<lambda>x. \<exists>k\<in>set (k # keys). g x = Inr k) xs)"
    by (rule arg_cong [where f = mset], rule filter_cong) auto
  finally show ?case .
qed

lemma fst_sort_file: "fst (sort_file words y_tol) = fst (calc_averages words)"
  by (simp add: sort_file_def split: prod.splits option.splits)

text \<open>
  Lines are returned for every list of well-formed word boxes, when \<open>y_tol\<close> is not zero.
\<close>

lemma sort_file_returns:
  assumes "\<forall>w\<in>set words. missing_key w = None" and "y_tol \<noteq> 0"
  shows "\<exists>words' sorted_lines. sort_file words y_tol = (words', Inr sorted_lines)"
proof -
  obtain words' r where calc: "calc_averages words = (words', r)"
    by (cases "calc_averages words")
  with calc_averages_well_formed [OF assms(1)] have r: "r = None"
    by simp
  with calc have avg: "\<forall>w\<in>set words'. y_avg w \<noteq> None \<and> x_avg w \<noteq> None"
    by (simp add: calc_averages_None)
  with assms(2) have "\<forall>w\<in>set words'. \<exists>k. bucket_key y_tol w = Inr k"
    by (auto simp: bucket_key_def getitem_def)
  then obtain buckets where fill: "fill_buckets y_tol [] words' = Inr buckets"
    using fill_buckets_returns by blast
  have "\<exists>b. map_of buckets k = Some b \<and> list_all (\<lambda>w. x_avg w \<noteq> None) b"
    if "k \<in> set (sort (map fst buckets))" for k
  proof -
    from that have "k \<in> fst ` set buckets"
      by simp
    with fill have "map_of buckets k = Some (filter (\<lambda>w. bucket_key y_tol w = Inr k) words')"
      by (rule map_of_fill_buckets)
    with avg show ?thesis
      by (simp add: list_all_iff)
  qed
  then have "\<exists>sorted_lines. sort_lines buckets (sort (map fst buckets)) = Inr sorted_lines"
    using sort_lines_map [of "sort (map fst buckets)" buckets] by blast
  with calc r fill show ?thesis
    by (auto simp: sort_file_def)
qed

subsection \<open>Completeness\<close>

text \<open>
  C2. When \<open>sort_file\<close> returns lines, the words of all lines together are, as a multiset,
  the words of the caller's list as the call leaves it: no word is lost, none is
  duplicated, none is in two lines. That list holds the input word boxes, position by
  position, each with its \<open>text\<close> and \<open>bbox\<close> as they were.
\<close>

theorem sort_file_complete:
  assumes "sort_file words y_tol = (words', Inr sorted_lines)"
  shows "mset (concat sorted_lines) = mset words' \<and> list_all2 same_box words words'"
proof -
  from assms obtain keys where
    calc: "calc_averages words = (words', None)"
    and keys: "sorted_wrt (<) keys" "set keys = {k. \<exists>w\<in>set words'. bucket_key y_tol w = Inr k}"
    and lines: "sorted_lines =
       map (\<lambda>k. sort_key (\<lambda>w. the (x_avg w)) (filter (\<lambda>w. bucket_key y_tol w = Inr k) words')) keys"
    and all: "\<forall>w\<in>set words'. x_avg w \<noteq> None \<and> (\<exists>k. bucket_key y_tol w = Inr k)"
    by (rule sort_file_lines)
  from keys(1) have "distinct keys"
    by (simp add: strict_sorted_iff)
  with lines have "mset (concat sorted_lines) =
      mset (filter (\<lambda>w. \<exists>k\<in>set keys. bucket_key y_tol w = Inr k) words')"
    by (simp only: mset_concat_groups)
  also have "filter (\<lambda>w. \<exists>k\<in>set keys. bucket_key y_tol w = Inr k) words' = words'"
    unfolding filter_id_conv keys(2) using all by blast
  finally have "mset (concat sorted_lines) = mset words'" .
  moreover from calc calc_averages_same_box [of words] have "list_all2 same_box words words'"
    by simp
  ultimately show ?thesis by simp
qed

theorem sort_file_complete_witness:
  "sort_file example_words (1 / 200) = (example_words_after, Inr example_lines)
   \<and> mset (concat example_lines) = mset example_words_after
   \<and> list_all2 same_box example_words example_words_after"
proof -
  have 1: "sort_file example_words (1 / 200) = (example_words_after, Inr example_lines)"
    by code_simp
  from sort_file_complete [OF 1] 1 show ?thesis
    by simp
qed

subsection \<open>Order of the lines and of the words\<close>



subsection \<open>Malformed word boxes\<close>




subsection \<open>Running \<open>sort_file\<close> again\<close>

text \<open>
  C8. \<open>sort_file\<close> is a function of the word list and \<open>y_tol\<close>, so equal inputs give equal
  outputs. The call changes the caller's words, by storing \<open>y_avg\<close> and \<open>x_avg\<close> on them; a
  second call on the list as the first call left it returns the same lines in the same
  order (or raises the same error) and leaves the list as it is.
\<close>

theorem sort_file_idempotent:
  "sort_file (fst (sort_file words y_tol)) y_tol = sort_file words y_tol"
proof -
  have "calc_averages (fst (sort_file words y_tol)) = calc_averages words"
    by (simp only: fst_sort_file calc_averages_idem)
  then show ?thesis
    by (simp add: sort_file_def)
qed

subsection \<open>What the call changes\<close>

text \<open>
  C9. After the call, also when it raises, the caller's list has the same length and
  every word box in it has the \<open>text\<close> and the \<open>bbox\<close>, with its four coordinates, that it
  had before. The other two fields of a word box are \<open>y_avg\<close> and \<open>x_avg\<close>.
\<close>

theorem sort_file_keeps_boxes:
  "list_all2 same_box words (fst (sort_file words y_tol))"
  by (simp only: fst_sort_file calc_averages_same_box)

end
